theory Spec2Isabelle
  imports Complex_Main "HOL-Library.Word"
begin

section \<open>Raster collaborator\<close>

text \<open>
  A raster band as the kernel generator and the routing tests use it: a size, a cell
  data type, an optional nodata value, the block size it was created with and its
  pixels, addressed by (x, y) = (column, row). Cell values are exact reals: the
  rounding of a Float32 or Float64 store is not modelled.
\<close>

datatype gdal_type = GDT_Byte | GDT_Int32 | GDT_Float32 | GDT_Float64

datatype error = CreateFailed | InvalidInput | Stalled

record raster =
  x_size :: nat
  y_size :: nat
  dtype :: gdal_type
  nodata :: "real option"
  block_x :: nat
  block_y :: nat
  pixels :: "nat \<times> nat \<Rightarrow> real"

record block =
  xoff :: nat
  yoff :: nat
  win_xsize :: nat
  win_ysize :: nat

definition ceil_div :: "nat \<Rightarrow> nat \<Rightarrow> nat" where
  "ceil_div n b = (n + b - 1) div b"

text \<open>
  Modelled from the spec: \<open>pygeoprocessing.iterblocks\<close> is not among the sources. The
  spec (section 6, block iteration) has it yield rectangular sub-windows, offset and
  size, that cover the full grid; here they are the raster's own blocks in row-major
  order, the last block of a row or column clipped at the raster's edge.
\<close>

definition iterblocks :: "raster \<Rightarrow> block list" where
  "iterblocks r =
     concat (map (\<lambda>j. map (\<lambda>i.
        \<lparr>xoff = i * block_x r, yoff = j * block_y r,
         win_xsize = min (block_x r) (x_size r - i * block_x r),
         win_ysize = min (block_y r) (y_size r - j * block_y r)\<rparr>)
        [0..<ceil_div (x_size r) (block_x r)])
        [0..<ceil_div (y_size r) (block_y r)])"

text \<open>\<open>band.WriteArray(array, xoff, yoff)\<close>: the array is a list of rows.\<close>

definition WriteArray :: "raster \<Rightarrow> real list list \<Rightarrow> nat \<Rightarrow> nat \<Rightarrow> raster" where
  "WriteArray r arr xo yo =
     r\<lparr>pixels := (\<lambda>(x, y).
        if yo \<le> y \<and> y < yo + length arr \<and> xo \<le> x \<and> x < xo + length (arr ! (y - yo))
        then arr ! (y - yo) ! (x - xo) else pixels r (x, y))\<rparr>"

definition ReadAsArray :: "raster \<Rightarrow> block \<Rightarrow> real list list" where
  "ReadAsArray r b =
     map (\<lambda>y. map (\<lambda>x. pixels r (x, y)) [xoff b..<xoff b + win_xsize b])
       [yoff b..<yoff b + win_ysize b]"

section \<open>kernels.py\<close>

definition hypot :: "int \<Rightarrow> int \<Rightarrow> real" where
  "hypot a b = sqrt (real_of_int (a * a + b * b))"

text \<open>
  \<open>numpy.hypot(*numpy.mgrid[ymin:ymax, xmin:xmax])\<close>: row \<open>y\<close>, column \<open>x\<close> holds
  \<open>hypot y x\<close>; an empty range where the upper bound is not above the lower one.
\<close>

definition mgrid_hypot :: "int \<Rightarrow> int \<Rightarrow> int \<Rightarrow> int \<Rightarrow> real list list" where
  "mgrid_hypot ymin ymax xmin xmax =
     map (\<lambda>y. map (\<lambda>x. hypot y x) [xmin..xmax - 1]) [ymin..ymax - 1]"

definition array_sum :: "real list list \<Rightarrow> real" where
  "array_sum arr = sum_list (map sum_list arr)"

text \<open>
  The first loop of \<open>_create_distance_based_kernel\<close>: one block per step, the state
  is the raster and \<open>running_sum\<close>. The callable \<open>function\<close> is applied to the array
  of distances; every caller in the module passes an elementwise numpy expression,
  so it is modelled by the function on one distance.
\<close>

definition fill_block ::
  "(real \<Rightarrow> real) \<Rightarrow> int \<Rightarrow> raster \<times> real \<Rightarrow> block \<Rightarrow> raster \<times> real" where
  "fill_block function pixel_radius st block_data =
     (let kernel_band = fst st; running_sum = snd st;
          array_xmin = int (xoff block_data) - pixel_radius;
          array_xmax = min (array_xmin + int (win_xsize block_data))
                           (int (x_size kernel_band) - pixel_radius);
          array_ymin = int (yoff block_data) - pixel_radius;
          array_ymax = min (array_ymin + int (win_ysize block_data))
                           (int (y_size kernel_band) - pixel_radius);
          pixel_dist_from_center = mgrid_hypot array_ymin array_ymax array_xmin array_xmax;
          kernel = map (map function) pixel_dist_from_center
      in (WriteArray kernel_band kernel (xoff block_data) (yoff block_data),
          running_sum + array_sum kernel))"

text \<open>The second loop: \<open>kernel_block /= running_sum\<close>, written back in place.\<close>

definition normalize_block :: "real \<Rightarrow> raster \<Rightarrow> block \<Rightarrow> raster" where
  "normalize_block running_sum kernel_band block_data =
     (let kernel_block = ReadAsArray kernel_band block_data
      in WriteArray kernel_band (map (map (\<lambda>v. v / running_sum)) kernel_block)
           (xoff block_data) (yoff block_data))"

definition FLOAT32_NODATA :: real where
  "FLOAT32_NODATA = - (2 - 1 / 2 ^ 23) * 2 ^ 127"

definition fill_pass :: "(real \<Rightarrow> real) \<Rightarrow> int \<Rightarrow> raster \<Rightarrow> raster \<times> real" where
  "fill_pass function pixel_radius kernel_raster =
     fold (\<lambda>block_data st. fill_block function pixel_radius st block_data)
       (iterblocks kernel_raster) (kernel_raster, 0)"

definition normalize_pass :: "real \<Rightarrow> raster \<Rightarrow> raster" where
  "normalize_pass running_sum kernel_raster =
     fold (\<lambda>block_data r. normalize_block running_sum r block_data)
       (iterblocks kernel_raster) kernel_raster"

text \<open>
  \<open>driver.Create\<close> with a size that is not positive gives no dataset, and the call fails;
  otherwise a Float32 raster tiled in 256 x 256 blocks, its pixels zero. The file at
  \<open>target_kernel_path\<close> is the raster returned.
\<close>

definition new_kernel_raster :: "int \<Rightarrow> raster" where
  "new_kernel_raster kernel_size =
     \<lparr>x_size = nat kernel_size, y_size = nat kernel_size,
      dtype = GDT_Float32, nodata = Some FLOAT32_NODATA,
      block_x = 256, block_y = 256, pixels = (\<lambda>_. 0)\<rparr>"

definition create_distance_based_kernel ::
  "(real \<Rightarrow> real) \<Rightarrow> real \<Rightarrow> bool \<Rightarrow> error + raster" where
  "create_distance_based_kernel function max_distance normalize_flag =
     (let pixel_radius = \<lceil>max_distance\<rceil>;
          kernel_size = pixel_radius * 2 + 1
      in if kernel_size \<le> 0 then Inl CreateFailed
         else
           let filled = fill_pass function pixel_radius (new_kernel_raster kernel_size);
               running_sum = snd filled
           in if normalize_flag then Inr (normalize_pass running_sum (fst filled))
              else Inr (fst filled))"

definition dichotomy :: "real \<Rightarrow> real \<Rightarrow> real" where
  "dichotomy max_distance distance_from_center =
     (if distance_from_center \<le> max_distance then 1 else 0)"

definition dichotomous_kernel :: "real \<Rightarrow> error + raster" where
  "dichotomous_kernel max_distance =
     create_distance_based_kernel (dichotomy max_distance) max_distance False"

definition density :: "real \<Rightarrow> real \<Rightarrow> real" where
  "density max_distance distance_from_center =
     (if distance_from_center \<le> max_distance
      then 0.75 * (1 - (distance_from_center / max_distance) ^ 2) else 0)"

definition density_decay_kernel :: "real \<Rightarrow> error + raster" where
  "density_decay_kernel max_distance =
     create_distance_based_kernel (density max_distance) max_distance False"

definition exp_decay :: "real \<Rightarrow> real \<Rightarrow> real" where
  "exp_decay max_distance distance_from_center =
     (if distance_from_center > max_distance then 0
      else exp (- distance_from_center / max_distance))"

definition exponential_decay_kernel :: "real \<Rightarrow> error + raster" where
  "exponential_decay_kernel max_distance =
     create_distance_based_kernel (exp_decay max_distance) max_distance True"

definition linear_decay :: "real \<Rightarrow> real \<Rightarrow> real" where
  "linear_decay max_distance distance_from_center =
     (if distance_from_center > max_distance then 0
      else (max_distance - distance_from_center) / max_distance)"

definition linear_decay_kernel :: "real \<Rightarrow> error + raster" where
  "linear_decay_kernel max_distance =
     create_distance_based_kernel (linear_decay max_distance) max_distance True"

definition gaussian_decay :: "real \<Rightarrow> real \<Rightarrow> real \<Rightarrow> real" where
  "gaussian_decay sigma max_distance distance_from_center =
     (if distance_from_center > max_distance then 0
      else 1 / (2 * pi * sigma ^ 2) * exp (- (distance_from_center ^ 2) / (2 * sigma ^ 2)))"

text \<open>
  \<open>max_distance = sigma * n_std_dev\<close> is a product of two doubles, rounded to a double; the
  raster's size is the ceiling of that rounded product, not of the exact one. The rounded
  multiplication is the parameter \<open>float_mul\<close>.
\<close>

definition gaussian_decay_kernel ::
  "(real \<Rightarrow> real \<Rightarrow> real) \<Rightarrow> real \<Rightarrow> real \<Rightarrow> error + raster" where
  "gaussian_decay_kernel float_mul sigma n_std_dev =
     (let max_distance = float_mul sigma n_std_dev
      in create_distance_based_kernel (gaussian_decay sigma max_distance) max_distance True)"

text \<open>
  What the loops compute, pixel by pixel: the distance of pixel \<open>(x, y)\<close> from the
  center pixel \<open>(pixel_radius, pixel_radius)\<close>, and the sum of a raster's pixels.
\<close>

definition pixel_dist_from_center :: "int \<Rightarrow> nat \<times> nat \<Rightarrow> real" where
  "pixel_dist_from_center pixel_radius p =
     hypot (int (snd p) - pixel_radius) (int (fst p) - pixel_radius)"

definition in_raster :: "raster \<Rightarrow> nat \<times> nat \<Rightarrow> bool" where
  "in_raster r p = (fst p < x_size r \<and> snd p < y_size r)"

definition raster_sum :: "raster \<Rightarrow> real" where
  "raster_sum r = (\<Sum>y = 0..<y_size r. \<Sum>x = 0..<x_size r. pixels r (x, y))"

definition in_block :: "block \<Rightarrow> nat \<times> nat \<Rightarrow> bool" where
  "in_block b p = (xoff b \<le> fst p \<and> fst p < xoff b + win_xsize b \<and>
                   yoff b \<le> snd p \<and> snd p < yoff b + win_ysize b)"

definition block_sum :: "(nat \<times> nat \<Rightarrow> real) \<Rightarrow> block \<Rightarrow> real" where
  "block_sum g b =
     (\<Sum>y = yoff b..<yoff b + win_ysize b. \<Sum>x = xoff b..<xoff b + win_xsize b. g (x, y))"

definition block_inside :: "raster \<Rightarrow> block \<Rightarrow> bool" where
  "block_inside r b = (xoff b + win_xsize b \<le> x_size r \<and> yoff b + win_ysize b \<le> y_size r)"

definition tile :: "raster \<Rightarrow> nat \<Rightarrow> nat \<Rightarrow> block" where
  "tile r i j = \<lparr>xoff = i * block_x r, yoff = j * block_y r,
         win_xsize = min (block_x r) (x_size r - i * block_x r),
         win_ysize = min (block_y r) (y_size r - j * block_y r)\<rparr>"

fun disjoint_blocks :: "block list \<Rightarrow> bool" where
  "disjoint_blocks [] = True"
| "disjoint_blocks (b # bs) =
     ((\<forall>c\<in>set bs. \<forall>p. \<not> (in_block b p \<and> in_block c p)) \<and> disjoint_blocks bs)"

definition kernel_total :: "(real \<Rightarrow> real) \<Rightarrow> int \<Rightarrow> real" where
  "kernel_total f R =
     (\<Sum>y = 0..<nat (R * 2 + 1). \<Sum>x = 0..<nat (R * 2 + 1). f (pixel_dist_from_center R (x, y)))"

definition square_float32_kernel :: "real \<Rightarrow> error + raster \<Rightarrow> bool" where
  "square_float32_kernel max_distance res =
     (case res of Inl _ \<Rightarrow> False
      | Inr r \<Rightarrow> dtype r = GDT_Float32 \<and> int (x_size r) = 2 * \<lceil>max_distance\<rceil> + 1 \<and>
          int (y_size r) = 2 * \<lceil>max_distance\<rceil> + 1 \<and> odd (x_size r))"

section \<open>Kernel rasters: the two passes\<close>

lemma upto_shift: "[int a - R..int a - R + int w - 1] = map (\<lambda>x. int x - R) [a..<a + w]"
  by (rule nth_equalityI) (auto)

lemma mgrid_block:
  "map (map f) (mgrid_hypot (int yo - R) (int yo - R + int h) (int xo - R) (int xo - R + int w)) =
   map (\<lambda>y. map (\<lambda>x. f (pixel_dist_from_center R (x, y))) [xo..<xo + w]) [yo..<yo + h]"
  by (simp add: mgrid_hypot_def upto_shift pixel_dist_from_center_def o_def)

lemma array_sum_block:
  "array_sum (map (\<lambda>y. map (\<lambda>x. g (x, y)) [xo..<xo + w]) [yo..<yo + h]) =
   block_sum g \<lparr>xoff = xo, yoff = yo, win_xsize = w, win_ysize = h\<rparr>"
  by (simp add: array_sum_def block_sum_def o_def interv_sum_list_conv_sum_set_nat)

lemma WriteArray_block:
  "WriteArray r (map (\<lambda>y. map (\<lambda>x. g (x, y)) [xo..<xo + w]) [yo..<yo + h]) xo yo =
   r\<lparr>pixels := (\<lambda>p. if in_block \<lparr>xoff = xo, yoff = yo, win_xsize = w, win_ysize = h\<rparr> p
                      then g p else pixels r p)\<rparr>"
proof -
  have "(\<lambda>(x, y). if yo \<le> y \<and> y < yo + length (map (\<lambda>y. map (\<lambda>x. g (x, y)) [xo..<xo + w]) [yo..<yo + h])
            \<and> xo \<le> x \<and> x < xo + length (map (\<lambda>y. map (\<lambda>x. g (x, y)) [xo..<xo + w]) [yo..<yo + h] ! (y - yo))
          then map (\<lambda>y. map (\<lambda>x. g (x, y)) [xo..<xo + w]) [yo..<yo + h] ! (y - yo) ! (x - xo)
          else pixels r (x, y)) =
        (\<lambda>p. if in_block \<lparr>xoff = xo, yoff = yo, win_xsize = w, win_ysize = h\<rparr> p
                      then g p else pixels r p)"
    by (rule ext) (auto simp: in_block_def)
  then show ?thesis by (simp add: WriteArray_def)
qed

lemma fill_block_eq:
  assumes "block_inside r b"
  shows "fill_block f R (r, s) b =
     (r\<lparr>pixels := (\<lambda>p. if in_block b p then f (pixel_dist_from_center R p) else pixels r p)\<rparr>,
      s + block_sum (\<lambda>p. f (pixel_dist_from_center R p)) b)"
proof -
  let ?g = "\<lambda>p. f (pixel_dist_from_center R p)"
  have mx: "min (int (xoff b) - R + int (win_xsize b)) (int (x_size r) - R) = int (xoff b) - R + int (win_xsize b)"
    using assms by (simp add: block_inside_def)
  have my: "min (int (yoff b) - R + int (win_ysize b)) (int (y_size r) - R) = int (yoff b) - R + int (win_ysize b)"
    using assms by (simp add: block_inside_def)
  have b: "\<lparr>xoff = xoff b, yoff = yoff b, win_xsize = win_xsize b, win_ysize = win_ysize b\<rparr> = b"
    by simp
  show ?thesis
    unfolding fill_block_def Let_def fst_conv snd_conv mx my mgrid_block
    using WriteArray_block[of r ?g "xoff b" "win_xsize b" "yoff b" "win_ysize b"]
      array_sum_block[of ?g "xoff b" "win_xsize b" "yoff b" "win_ysize b"]
    by (simp add: b)
qed

lemma normalize_block_eq:
  "normalize_block s r b =
     r\<lparr>pixels := (\<lambda>p. if in_block b p then pixels r p / s else pixels r p)\<rparr>"
proof -
  have b: "\<lparr>xoff = xoff b, yoff = yoff b, win_xsize = win_xsize b, win_ysize = win_ysize b\<rparr> = b"
    by simp
  have "map (map (\<lambda>v. v / s)) (ReadAsArray r b) =
        map (\<lambda>y. map (\<lambda>x. (\<lambda>p. pixels r p / s) (x, y)) [xoff b..<xoff b + win_xsize b])
          [yoff b..<yoff b + win_ysize b]"
    by (simp add: ReadAsArray_def o_def)
  then show ?thesis
    using WriteArray_block[of r "\<lambda>p. pixels r p / s" "xoff b" "win_xsize b" "yoff b" "win_ysize b"]
    by (simp add: normalize_block_def Let_def b)
qed

lemma block_inside_pixels [simp]: "block_inside (r\<lparr>pixels := f\<rparr>) b = block_inside r b"
  by (simp add: block_inside_def)

lemma fill_fold:
  assumes "\<forall>b\<in>set bs. block_inside r b"
  shows "fold (\<lambda>b st. fill_block f R st b) bs (r, s) =
     (r\<lparr>pixels := (\<lambda>p. if \<exists>b\<in>set bs. in_block b p then f (pixel_dist_from_center R p) else pixels r p)\<rparr>,
      s + sum_list (map (block_sum (\<lambda>p. f (pixel_dist_from_center R p))) bs))"
  using assms
proof (induction bs arbitrary: r s)
  case Nil
  then show ?case by simp
next
  case (Cons b bs)
  from Cons show ?case
    apply (simp add: fill_block_eq add.assoc)
    apply (rule arg_cong[where f="\<lambda>A. r\<lparr>pixels := A\<rparr>"])
    apply (rule ext)
    apply auto
    done
qed

lemma normalize_fold:
  assumes "disjoint_blocks bs"
  shows "fold (\<lambda>b r. normalize_block s r b) bs r =
     r\<lparr>pixels := (\<lambda>p. if \<exists>b\<in>set bs. in_block b p then pixels r p / s else pixels r p)\<rparr>"
  using assms
proof (induction bs arbitrary: r)
  case Nil
  then show ?case by simp
next
  case (Cons b bs)
  then have d: "\<And>c p. c \<in> set bs \<Longrightarrow> in_block b p \<Longrightarrow> \<not> in_block c p"
    by auto
  from Cons show ?case
    apply (simp add: normalize_block_eq)
    apply (rule arg_cong[where f="\<lambda>A. r\<lparr>pixels := A\<rparr>"])
    apply (rule ext)
    using d apply auto
    done
qed

lemma iterblocks_tile:
  "iterblocks r = concat (map (\<lambda>j. map (\<lambda>i. tile r i j) [0..<ceil_div (x_size r) (block_x r)])
        [0..<ceil_div (y_size r) (block_y r)])"
  by (simp add: iterblocks_def tile_def)

lemma iterblocks_pixels [simp]: "iterblocks (r\<lparr>pixels := f\<rparr>) = iterblocks r"
  by (simp add: iterblocks_def)

lemma ceil_div_less: "0 < b \<Longrightarrow> i < ceil_div n b \<longleftrightarrow> i * b < n"
proof -
  assume b: "0 < b"
  have "i < (n + b - 1) div b \<longleftrightarrow> (i + 1) * b \<le> n + b - 1"
    using b less_eq_div_iff_mult_less_eq[of b "i + 1" "n + b - 1"] by auto
  also have "\<dots> \<longleftrightarrow> i * b < n" using b by (cases b) auto
  finally show ?thesis by (simp add: ceil_div_def)
qed

lemma in_tile_iff:
  assumes "0 < block_x r" "0 < block_y r"
  shows "in_block (tile r i j) (x, y) \<longleftrightarrow>
         x div block_x r = i \<and> y div block_y r = j \<and> x < x_size r \<and> y < y_size r"
proof -
  have one: "\<And>b n i x. 0 < b \<Longrightarrow> (i * b \<le> x \<and> x < i * b + min b (n - i * b)) \<longleftrightarrow> (x div b = i \<and> x < (n::nat))"
  proof -
    fix b n i x :: nat assume b: "0 < b"
    define m where "m = i * b"
    have "x div b = i \<longleftrightarrow> m \<le> x \<and> x < m + b"
      using b less_eq_div_iff_mult_less_eq[of b i x] div_less_iff_less_mult[of b x "Suc i"]
      by (auto simp: m_def)
    then have "(m \<le> x \<and> x < m + min b (n - m)) \<longleftrightarrow> (x div b = i \<and> x < n)"
      by (simp add: min_def) arith
    then show "(i * b \<le> x \<and> x < i * b + min b (n - i * b)) \<longleftrightarrow> (x div b = i \<and> x < n)"
      by (simp add: m_def)
  qed
  show ?thesis
    using one[OF assms(1), of i x "x_size r"] one[OF assms(2), of j y "y_size r"]
    by (auto simp: in_block_def tile_def)
qed

lemma iterblocks_set:
  assumes "0 < block_x r" "0 < block_y r"
  shows "set (iterblocks r) = {tile r i j | i j. i * block_x r < x_size r \<and> j * block_y r < y_size r}"
  using assms by (auto simp: iterblocks_tile ceil_div_less) blast

lemma iterblocks_inside:
  assumes "0 < block_x r" "0 < block_y r" "b \<in> set (iterblocks r)"
  shows "block_inside r b"
  using assms by (auto simp: iterblocks_set block_inside_def tile_def min_def)

lemma iterblocks_cover:
  assumes "0 < block_x r" "0 < block_y r"
  shows "(\<exists>b\<in>set (iterblocks r). in_block b p) \<longleftrightarrow> fst p < x_size r \<and> snd p < y_size r"
proof -
  obtain x y where p: "p = (x, y)" by (cases p)
  show ?thesis
  proof
    assume "\<exists>b\<in>set (iterblocks r). in_block b p"
    then obtain i j where "in_block (tile r i j) (x, y)"
      unfolding p iterblocks_set[OF assms] by blast
    then show "fst p < x_size r \<and> snd p < y_size r"
      unfolding p in_tile_iff[OF assms] by simp
  next
    assume a: "fst p < x_size r \<and> snd p < y_size r"
    let ?i = "x div block_x r" and ?j = "y div block_y r"
    have le: "?i * block_x r \<le> x" "?j * block_y r \<le> y" by simp_all
    from a have "x < x_size r" "y < y_size r" unfolding p by simp_all
    with le have "?i * block_x r < x_size r" "?j * block_y r < y_size r"
      by linarith+
    then have m: "tile r ?i ?j \<in> set (iterblocks r)"
      unfolding iterblocks_set[OF assms] by blast
    have "in_block (tile r ?i ?j) (x, y)"
      unfolding in_tile_iff[OF assms] using a p by simp
    with m show "\<exists>b\<in>set (iterblocks r). in_block b p"
      unfolding p by blast
  qed
qed

lemma disjoint_blocks_map:
  assumes "distinct ks" "\<And>k k' p. k \<in> set ks \<Longrightarrow> k' \<in> set ks \<Longrightarrow> k \<noteq> k' \<Longrightarrow> \<not> (in_block (B k) p \<and> in_block (B k') p)"
  shows "disjoint_blocks (map B ks)"
  using assms by (induction ks) auto

lemma iterblocks_product:
  "iterblocks r = map (\<lambda>(j, i). tile r i j)
     (List.product [0..<ceil_div (y_size r) (block_y r)] [0..<ceil_div (x_size r) (block_x r)])"
proof -
  have "\<And>xs ys. concat (map (\<lambda>j. map (\<lambda>i. tile r i j) xs) ys) = map (\<lambda>(j, i). tile r i j) (List.product ys xs)"
    subgoal for xs ys by (induction ys) (auto simp: o_def)
    done
  then show ?thesis by (simp add: iterblocks_tile)
qed

lemma iterblocks_disjoint:
  assumes "0 < block_x r" "0 < block_y r"
  shows "disjoint_blocks (iterblocks r)"
  unfolding iterblocks_product
  apply (rule disjoint_blocks_map)
   apply (simp add: distinct_product)
  using in_tile_iff[OF assms] apply (auto)
  done

lemma tile_sum_prefix:
  fixes h :: "nat \<Rightarrow> real"
  assumes "0 < b" "k \<le> ceil_div n b"
  shows "(\<Sum>i = 0..<k. \<Sum>x = i * b..<i * b + min b (n - i * b). h x) = (\<Sum>x = 0..<min (k * b) n. h x)"
  using assms(2)
proof (induction k)
  case 0
  then show ?case by simp
next
  case (Suc k)
  then have kb: "k * b < n" using ceil_div_less[OF assms(1), of k n] by simp
  have e: "k * b + min b (n - k * b) = min (Suc k * b) n"
    using kb by (simp add: min_def) arith
  have "(\<Sum>i = 0..<Suc k. \<Sum>x = i * b..<i * b + min b (n - i * b). h x) =
        (\<Sum>x = 0..<k * b. h x) + (\<Sum>x = k * b..<min (Suc k * b) n. h x)"
  proof -
    have "(\<Sum>i = 0..<k. \<Sum>x = i * b..<i * b + min b (n - i * b). h x) = (\<Sum>x = 0..<k * b. h x)"
      using Suc kb by (simp add: min_def)
    then show ?thesis by (simp only: sum.atLeast0_lessThan_Suc e)
  qed
  also have "\<dots> = (\<Sum>x = 0..<min (Suc k * b) n. h x)"
    using kb by (intro sum.atLeastLessThan_concat) (auto simp: min_def)
  finally show ?case .
qed

lemma tile_sum_1d:
  fixes h :: "nat \<Rightarrow> real"
  assumes "0 < b"
  shows "(\<Sum>i = 0..<ceil_div n b. \<Sum>x = i * b..<i * b + min b (n - i * b). h x) = (\<Sum>x = 0..<n. h x)"
proof -
  have "\<not> ceil_div n b * b < n" using ceil_div_less[OF assms, of "ceil_div n b" n] by simp
  then have "min (ceil_div n b * b) n = n" by simp
  with tile_sum_prefix[OF assms order_refl, of h n] show ?thesis by simp
qed

lemma sum_list_concat_map:
  fixes F :: "'a \<Rightarrow> real"
  shows "sum_list (map F (concat xss)) = sum_list (map (\<lambda>xs. sum_list (map F xs)) xss)"
  by (induction xss) auto

lemma iterblocks_sum:
  assumes "0 < block_x r" "0 < block_y r"
  shows "sum_list (map (block_sum g) (iterblocks r)) =
         (\<Sum>y = 0..<y_size r. \<Sum>x = 0..<x_size r. g (x, y))"
proof -
  let ?nx = "ceil_div (x_size r) (block_x r)" and ?ny = "ceil_div (y_size r) (block_y r)"
  let ?X = "\<lambda>i. {i * block_x r..<i * block_x r + min (block_x r) (x_size r - i * block_x r)}"
  let ?Y = "\<lambda>j. {j * block_y r..<j * block_y r + min (block_y r) (y_size r - j * block_y r)}"
  have "sum_list (map (block_sum g) (iterblocks r)) =
        (\<Sum>j = 0..<?ny. \<Sum>i = 0..<?nx. block_sum g (tile r i j))"
    by (simp add: iterblocks_tile sum_list_concat_map o_def interv_sum_list_conv_sum_set_nat)
  also have "\<dots> = (\<Sum>j = 0..<?ny. \<Sum>i = 0..<?nx. \<Sum>y\<in>?Y j. \<Sum>x\<in>?X i. g (x, y))"
    by (simp add: block_sum_def tile_def)
  also have "\<dots> = (\<Sum>j = 0..<?ny. \<Sum>y\<in>?Y j. \<Sum>i = 0..<?nx. \<Sum>x\<in>?X i. g (x, y))"
    by (intro sum.cong refl sum.swap)
  also have "\<dots> = (\<Sum>j = 0..<?ny. \<Sum>y\<in>?Y j. \<Sum>x = 0..<x_size r. g (x, y))"
    by (simp add: tile_sum_1d[OF assms(1)])
  also have "\<dots> = (\<Sum>y = 0..<y_size r. \<Sum>x = 0..<x_size r. g (x, y))"
    by (rule tile_sum_1d[OF assms(2)])
  finally show ?thesis .
qed

lemma in_raster_pixels [simp]: "in_raster (r\<lparr>pixels := g\<rparr>) p = in_raster r p"
  by (simp add: in_raster_def)

lemma fill_pass_eq:
  assumes "0 < block_x r" "0 < block_y r"
  shows "fill_pass f R r =
     (r\<lparr>pixels := (\<lambda>p. if in_raster r p then f (pixel_dist_from_center R p) else pixels r p)\<rparr>,
      (\<Sum>y = 0..<y_size r. \<Sum>x = 0..<x_size r. f (pixel_dist_from_center R (x, y))))"
proof -
  have "\<forall>b\<in>set (iterblocks r). block_inside r b"
    using iterblocks_inside[OF assms] by blast
  then show ?thesis
    unfolding fill_pass_def
    by (simp add: fill_fold iterblocks_cover[OF assms] iterblocks_sum[OF assms] in_raster_def)
qed

lemma normalize_pass_eq:
  assumes "0 < block_x r" "0 < block_y r"
  shows "normalize_pass s r =
     r\<lparr>pixels := (\<lambda>p. if in_raster r p then pixels r p / s else pixels r p)\<rparr>"
  unfolding normalize_pass_def
  by (simp add: normalize_fold[OF iterblocks_disjoint[OF assms]] iterblocks_cover[OF assms] in_raster_def)

lemma new_kernel_raster_pixels [simp]: "pixels (new_kernel_raster k) p = 0"
  by (simp add: new_kernel_raster_def)

lemma create_unnormalized:
  assumes "0 < \<lceil>md\<rceil> * 2 + 1"
  shows "create_distance_based_kernel f md False =
     Inr ((new_kernel_raster (\<lceil>md\<rceil> * 2 + 1))
       \<lparr>pixels := (\<lambda>p. if in_raster (new_kernel_raster (\<lceil>md\<rceil> * 2 + 1)) p
                       then f (pixel_dist_from_center \<lceil>md\<rceil> p) else 0)\<rparr>)"
proof -
  have "0 < block_x (new_kernel_raster (\<lceil>md\<rceil> * 2 + 1))" "0 < block_y (new_kernel_raster (\<lceil>md\<rceil> * 2 + 1))"
    by (simp_all add: new_kernel_raster_def)
  note fp = fill_pass_eq[OF this]
  have nz: "\<not> \<lceil>md\<rceil> * 2 + 1 \<le> 0" using assms by linarith
  show ?thesis
    by (simp add: create_distance_based_kernel_def Let_def fp nz cong: if_cong)
qed

lemma create_normalized:
  assumes "0 < \<lceil>md\<rceil> * 2 + 1"
  shows "create_distance_based_kernel f md True =
     Inr ((new_kernel_raster (\<lceil>md\<rceil> * 2 + 1))
       \<lparr>pixels := (\<lambda>p. if in_raster (new_kernel_raster (\<lceil>md\<rceil> * 2 + 1)) p
                       then f (pixel_dist_from_center \<lceil>md\<rceil> p) / kernel_total f \<lceil>md\<rceil> else 0)\<rparr>)"
proof -
  let ?r = "new_kernel_raster (\<lceil>md\<rceil> * 2 + 1)"
  have pos: "0 < block_x ?r" "0 < block_y ?r"
    by (simp_all add: new_kernel_raster_def)
  note fp = fill_pass_eq[OF pos]
  have pos': "\<And>g. 0 < block_x (?r\<lparr>pixels := g\<rparr>)" "\<And>g. 0 < block_y (?r\<lparr>pixels := g\<rparr>)"
    by (simp_all add: new_kernel_raster_def)
  have tot: "(\<Sum>y = 0..<y_size ?r. \<Sum>x = 0..<x_size ?r. f (pixel_dist_from_center \<lceil>md\<rceil> (x, y))) = kernel_total f \<lceil>md\<rceil>"
    by (simp add: kernel_total_def new_kernel_raster_def)
  have nz: "\<not> \<lceil>md\<rceil> * 2 + 1 \<le> 0" using assms by linarith
  show ?thesis
    by (simp add: create_distance_based_kernel_def Let_def fp normalize_pass_eq[OF pos'] tot nz cong: if_cong)
qed

lemma hypot_eq_0: "hypot a b = 0 \<longleftrightarrow> a = 0 \<and> b = 0"
proof -
  have "hypot a b = 0 \<longleftrightarrow> a * a + b * b = 0"
    by (simp add: hypot_def del: of_int_add of_int_mult)
  then show ?thesis by (simp add: sum_squares_eq_zero_iff)
qed

lemma pixel_dist_eq_0:
  assumes "0 \<le> R"
  shows "pixel_dist_from_center R p = 0 \<longleftrightarrow> p = (nat R, nat R)"
  using assms by (cases p) (auto simp: pixel_dist_from_center_def hypot_eq_0)

lemma create_square:
  assumes "0 < max_distance"
  shows "square_float32_kernel max_distance (create_distance_based_kernel f max_distance nf)"
proof -
  have c: "0 < \<lceil>max_distance\<rceil>" using assms by linarith
  then have k: "0 < \<lceil>max_distance\<rceil> * 2 + 1" by linarith
  have o: "odd (nat (\<lceil>max_distance\<rceil> * 2 + 1))"
    using c by (simp add: even_nat_iff)
  show ?thesis
    using c o
    by (cases nf) (simp_all add: create_normalized[OF k] create_unnormalized[OF k]
        square_float32_kernel_def new_kernel_raster_def)
qed

text \<open>
  C9. For every positive \<open>max_distance\<close>, \<open>_create_distance_based_kernel\<close>, and so each of
  the five public kernel functions (for \<open>gaussian_decay_kernel\<close>, \<open>max_distance\<close> is the
  rounded product of \<open>sigma\<close> and \<open>n_std_dev\<close> that the code computes), creates a square Float32 raster whose width and height
  are both \<open>2 * ceil(max_distance) + 1\<close>, an odd number; the raster of distances from the
  center that the loop computes (the kernel of the identity function) is zero at the center
  pixel \<open>(ceil(max_distance), ceil(max_distance))\<close> and at no other pixel.
\<close>

theorem kernel_size_odd_center:
  assumes "0 < max_distance"
  shows "square_float32_kernel max_distance
           (create_distance_based_kernel function max_distance normalize_flag) \<and>
         square_float32_kernel max_distance (dichotomous_kernel max_distance) \<and>
         square_float32_kernel max_distance (density_decay_kernel max_distance) \<and>
         square_float32_kernel max_distance (exponential_decay_kernel max_distance) \<and>
         square_float32_kernel max_distance (linear_decay_kernel max_distance) \<and>
         (\<forall>sigma n_std_dev. float_mul sigma n_std_dev = max_distance \<longrightarrow>
            square_float32_kernel max_distance (gaussian_decay_kernel float_mul sigma n_std_dev)) \<and>
         (\<exists>d. create_distance_based_kernel (\<lambda>distance. distance) max_distance False = Inr d \<and>
            in_raster d (nat \<lceil>max_distance\<rceil>, nat \<lceil>max_distance\<rceil>) \<and>
            (\<forall>p. in_raster d p \<longrightarrow>
               (pixels d p = 0 \<longleftrightarrow> p = (nat \<lceil>max_distance\<rceil>, nat \<lceil>max_distance\<rceil>))))"
proof -
  have c: "0 < \<lceil>max_distance\<rceil>" using assms by linarith
  then have k: "0 < \<lceil>max_distance\<rceil> * 2 + 1" by linarith
  have c0: "0 \<le> \<lceil>max_distance\<rceil>" using c by simp
  have center: "\<exists>d. create_distance_based_kernel (\<lambda>distance. distance) max_distance False = Inr d \<and>
            in_raster d (nat \<lceil>max_distance\<rceil>, nat \<lceil>max_distance\<rceil>) \<and>
            (\<forall>p. in_raster d p \<longrightarrow>
               (pixels d p = 0 \<longleftrightarrow> p = (nat \<lceil>max_distance\<rceil>, nat \<lceil>max_distance\<rceil>)))"
    using c by (simp add: create_unnormalized[OF k] pixel_dist_eq_0[OF c0])
               (simp add: in_raster_def new_kernel_raster_def)
  show ?thesis
    using create_square[OF assms] center
    by (simp add: dichotomous_kernel_def density_decay_kernel_def exponential_decay_kernel_def
        linear_decay_kernel_def gaussian_decay_kernel_def Let_def)
qed

theorem kernel_size_odd_center_witness:
  "(0::real) < 1 \<and>
   square_float32_kernel 1 (dichotomous_kernel 1) \<and>
   (1 / 2) * 2 = (1::real) \<and>
   square_float32_kernel 1 (gaussian_decay_kernel (\<lambda>a b. a * b) (1 / 2) 2) \<and>
   (\<exists>d. create_distance_based_kernel (\<lambda>distance. distance) 1 False = Inr d \<and>
      in_raster d (1, 1) \<and> (\<forall>p. in_raster d p \<longrightarrow> (pixels d p = 0 \<longleftrightarrow> p = (1, 1))))"
proof -
  have g: "(1 / 2) * 2 = (1::real)" by simp
  from kernel_size_odd_center[of 1 "dichotomy 1" False "\<lambda>a b. a * b"]
  have k: "square_float32_kernel 1 (dichotomous_kernel 1) \<and>
     (\<forall>sigma n_std_dev. sigma * n_std_dev = (1::real) \<longrightarrow>
        square_float32_kernel 1 (gaussian_decay_kernel (\<lambda>a b. a * b) sigma n_std_dev)) \<and>
     (\<exists>d. create_distance_based_kernel (\<lambda>distance. distance) 1 False = Inr d \<and>
        in_raster d (1, 1) \<and> (\<forall>p. in_raster d p \<longrightarrow> (pixels d p = 0 \<longleftrightarrow> p = (1, 1))))"
    by simp
  then have "square_float32_kernel 1 (gaussian_decay_kernel (\<lambda>a b. a * b) (1 / 2) 2)"
    using g by blast
  with k g show ?thesis by simp
qed

lemma raster_sum_cong:
  assumes "\<And>p. in_raster r p \<Longrightarrow> pixels r p = g p"
  shows "raster_sum r = (\<Sum>y = 0..<y_size r. \<Sum>x = 0..<x_size r. g (x, y))"
  unfolding raster_sum_def
  by (intro sum.cong refl assms) (simp add: in_raster_def)

text \<open>
  C10. With \<open>normalize=True\<close> the second pass divides every pixel by \<open>running_sum\<close>, the sum
  of all pixel values written in the first pass: in exact arithmetic, when that sum is not
  zero, each final pixel is its unnormalized value divided by the unnormalized total, and
  the final kernel sums to 1. With \<open>normalize=False\<close> each pixel is the value of
  \<open>function\<close> at its distance from the center, unscaled.
\<close>

theorem kernel_normalization:
  assumes "0 < max_distance"
  shows "(\<exists>u n. create_distance_based_kernel function max_distance False = Inr u \<and>
           create_distance_based_kernel function max_distance True = Inr n \<and>
           snd (fill_pass function \<lceil>max_distance\<rceil> (new_kernel_raster (\<lceil>max_distance\<rceil> * 2 + 1)))
             = raster_sum u \<and>
           (\<forall>p. in_raster u p \<longrightarrow>
              pixels u p = function (pixel_dist_from_center \<lceil>max_distance\<rceil> p)) \<and>
           (\<forall>p. in_raster n p = in_raster u p) \<and>
           (raster_sum u \<noteq> 0 \<longrightarrow>
              (\<forall>p. in_raster n p \<longrightarrow> pixels n p = pixels u p / raster_sum u) \<and>
              raster_sum n = 1)) \<and>
         exponential_decay_kernel max_distance =
           create_distance_based_kernel (exp_decay max_distance) max_distance True \<and>
         linear_decay_kernel max_distance =
           create_distance_based_kernel (linear_decay max_distance) max_distance True \<and>
         (\<forall>sigma n_std_dev. float_mul sigma n_std_dev = max_distance \<longrightarrow>
            gaussian_decay_kernel float_mul sigma n_std_dev =
              create_distance_based_kernel (gaussian_decay sigma max_distance) max_distance True) \<and>
         dichotomous_kernel max_distance =
           create_distance_based_kernel (dichotomy max_distance) max_distance False \<and>
         density_decay_kernel max_distance =
           create_distance_based_kernel (density max_distance) max_distance False"
proof -
  let ?R = "\<lceil>max_distance\<rceil>"
  let ?r = "new_kernel_raster (?R * 2 + 1)"
  let ?g = "\<lambda>p. function (pixel_dist_from_center ?R p)"
  let ?u = "?r\<lparr>pixels := (\<lambda>p. if in_raster ?r p then ?g p else 0)\<rparr>"
  let ?n = "?r\<lparr>pixels := (\<lambda>p. if in_raster ?r p then ?g p / kernel_total function ?R else 0)\<rparr>"
  have c: "0 < ?R" using assms by linarith
  then have k: "0 < ?R * 2 + 1" by linarith
  have pos: "0 < block_x ?r" "0 < block_y ?r"
    by (simp_all add: new_kernel_raster_def)
  have sz: "x_size ?r = nat (?R * 2 + 1)" "y_size ?r = nat (?R * 2 + 1)"
    by (simp_all add: new_kernel_raster_def)
  have su: "raster_sum ?u = kernel_total function ?R"
    unfolding kernel_total_def
    using raster_sum_cong[of ?u ?g] by (simp add: sz)
  have sn: "raster_sum ?n = (\<Sum>y = 0..<y_size ?r. \<Sum>x = 0..<x_size ?r. ?g (x, y) / kernel_total function ?R)"
    using raster_sum_cong[of ?n "\<lambda>p. ?g p / kernel_total function ?R"] by simp
  have sn1: "kernel_total function ?R \<noteq> 0 \<Longrightarrow> raster_sum ?n = 1"
    unfolding sn by (simp add: sum_divide_distrib[symmetric] kernel_total_def sz)
  have fp: "snd (fill_pass function ?R ?r) = kernel_total function ?R"
    by (simp add: fill_pass_eq[OF pos] kernel_total_def sz)
  have main: "\<exists>u n. create_distance_based_kernel function max_distance False = Inr u \<and>
           create_distance_based_kernel function max_distance True = Inr n \<and>
           snd (fill_pass function \<lceil>max_distance\<rceil> (new_kernel_raster (\<lceil>max_distance\<rceil> * 2 + 1)))
             = raster_sum u \<and>
           (\<forall>p. in_raster u p \<longrightarrow>
              pixels u p = function (pixel_dist_from_center \<lceil>max_distance\<rceil> p)) \<and>
           (\<forall>p. in_raster n p = in_raster u p) \<and>
           (raster_sum u \<noteq> 0 \<longrightarrow>
              (\<forall>p. in_raster n p \<longrightarrow> pixels n p = pixels u p / raster_sum u) \<and>
              raster_sum n = 1)"
    apply (rule exI[of _ ?u], rule exI[of _ ?n])
    apply (simp only: create_unnormalized[OF k] create_normalized[OF k] fp su)
    using sn1 apply simp
    done
  show ?thesis
    using main
    by (simp add: dichotomous_kernel_def density_decay_kernel_def exponential_decay_kernel_def
        linear_decay_kernel_def gaussian_decay_kernel_def Let_def)
qed

theorem kernel_normalization_witness:
  "(0::real) < 1 \<and>
   (\<exists>u n. create_distance_based_kernel (\<lambda>d. 1) 1 False = Inr u \<and>
           create_distance_based_kernel (\<lambda>d. 1) 1 True = Inr n \<and>
           raster_sum u = 9 \<and> raster_sum u \<noteq> 0 \<and> in_raster n (1, 1) \<and>
           pixels n (1, 1) = 1 / 9 \<and> raster_sum n = 1) \<and>
   (1 / 2) * 2 = (1::real) \<and>
   gaussian_decay_kernel (\<lambda>a b. a * b) (1 / 2) 2 =
     create_distance_based_kernel (gaussian_decay (1 / 2) 1) 1 True"
proof -
  let ?r = "new_kernel_raster (\<lceil>1::real\<rceil> * 2 + 1)"
  let ?u = "?r\<lparr>pixels := (\<lambda>p. if in_raster ?r p then 1 else 0)\<rparr>"
  have k: "0 < \<lceil>1::real\<rceil> * 2 + 1" by simp
  have cu: "create_distance_based_kernel (\<lambda>d. 1) 1 False = Inr ?u"
    by (rule create_unnormalized[OF k])
  have "raster_sum ?u = (\<Sum>y = 0..<y_size ?u. \<Sum>x = 0..<x_size ?u. 1)"
    by (rule raster_sum_cong) simp
  also have "\<dots> = 9" by (simp add: new_kernel_raster_def)
  finally have su: "raster_sum ?u = 9" .
  have iu: "in_raster ?u (1, 1)" "pixels ?u (1, 1) = 1"
    by (simp_all add: in_raster_def new_kernel_raster_def)
  have g: "(1 / 2) * 2 = (1::real)" by simp
  from kernel_normalization[of 1 "\<lambda>d. 1" "\<lambda>a b. a * b"]
  have th: "(\<exists>u n. create_distance_based_kernel (\<lambda>d. 1) 1 False = Inr u \<and>
           create_distance_based_kernel (\<lambda>d. 1) 1 True = Inr n \<and>
           (\<forall>p. in_raster n p = in_raster u p) \<and>
           (raster_sum u \<noteq> 0 \<longrightarrow>
              (\<forall>p. in_raster n p \<longrightarrow> pixels n p = pixels u p / raster_sum u) \<and>
              raster_sum n = 1))"
    and ga: "\<forall>sigma n_std_dev. sigma * n_std_dev = (1::real) \<longrightarrow>
            gaussian_decay_kernel (\<lambda>a b. a * b) sigma n_std_dev =
              create_distance_based_kernel (gaussian_decay sigma 1) 1 True"
    by auto
  from th obtain u n where un:
    "create_distance_based_kernel (\<lambda>d. 1) 1 False = Inr u"
    "create_distance_based_kernel (\<lambda>d. 1) 1 True = Inr n"
    "\<forall>p. in_raster n p = in_raster u p"
    "raster_sum u \<noteq> 0 \<longrightarrow>
       (\<forall>p. in_raster n p \<longrightarrow> pixels n p = pixels u p / raster_sum u) \<and> raster_sum n = 1"
    by blast
  from un(1) cu have eq: "u = ?u" by simp
  have s9: "raster_sum u = 9" unfolding eq by (rule su)
  then have nz: "raster_sum u \<noteq> 0" by simp
  have inn: "in_raster n (1, 1)" using un(3) iu(1) eq by simp
  have pn: "pixels n (1, 1) = 1 / 9"
    using un(4) nz inn s9 iu(2) eq by simp
  have sn: "raster_sum n = 1" using un(4) nz by simp
  have gk: "gaussian_decay_kernel (\<lambda>a b. a * b) (1 / 2) 2 =
     create_distance_based_kernel (gaussian_decay (1 / 2) 1) 1 True"
    using ga g by blast
  have ex: "\<exists>u n. create_distance_based_kernel (\<lambda>d. 1) 1 False = Inr u \<and>
           create_distance_based_kernel (\<lambda>d. 1) 1 True = Inr n \<and>
           raster_sum u = 9 \<and> raster_sum u \<noteq> 0 \<and> in_raster n (1, 1) \<and>
           pixels n (1, 1) = 1 / 9 \<and> raster_sum n = 1"
    using un(1,2) s9 nz inn pn sn by blast
  have z: "(0::real) < 1" by simp
  from z ex g gk show ?thesis by (intro conjI)
qed

end
